theory Spec2Isabelle
  imports Complex_Main "HOL-Library.AList" "HOL-Library.Sublist"
begin

section \<open>Python strings\<close>

text \<open>
  Python strings are modelled as \<^typ>\<open>string\<close>. Two methods of \<^verbatim>\<open>str\<close> are needed.

  \<^verbatim>\<open>s.replace(old, new)\<close> scans \<^verbatim>\<open>s\<close> from the left and replaces every non-overlapping
  occurrence of \<^verbatim>\<open>old\<close>; for an empty \<^verbatim>\<open>old\<close> it puts \<^verbatim>\<open>new\<close> before every character and
  at the end.
\<close>

function replace_str :: "string \<Rightarrow> string \<Rightarrow> string \<Rightarrow> string" where
  "replace_str old new s =
     (if old = [] then new @ concat (map (\<lambda>c. c # new) s)
      else if s = [] then []
      else if take (length old) s = old
        then new @ replace_str old new (drop (length old) s)
      else hd s # replace_str old new (tl s))"
  by pat_completeness auto
termination
  by (relation "measure (\<lambda>(old, new, s). length s)") auto

declare replace_str.simps [simp del]

text \<open>\<^verbatim>\<open>s.split(sep)\<close> for a one-character separator: the fields between the separators,
  empty fields included.\<close>

fun split_on :: "char \<Rightarrow> string \<Rightarrow> string list" where
  "split_on sep [] = [[]]"
| "split_on sep (c # cs) =
     (if c = sep then [] # split_on sep cs
      else (case split_on sep cs of
              [] \<Rightarrow> [[c]]
            | field # fields \<Rightarrow> (c # field) # fields))"

section \<open>Python floats\<close>

text \<open>
  A Python \<^verbatim>\<open>float\<close> is an IEEE 754 binary64 number; a finite one is represented here by
  its exact value, a rational. \<^verbatim>\<open>a / b\<close> on two ints is the binary64 number nearest to the
  exact quotient, ties going to the even significand.

  \<open>round_half_even\<close> rounds a rational to the nearest integer, ties to even.
  \<open>binade fuel 0 x\<close> is the least \<open>k\<close> with \<open>1 \<le> x * 2 ^ k\<close>, stopping at 1022, the
  smallest normal exponent; the binary64 numbers of that binade (and the subnormal ones,
  for \<open>k = 1022\<close>) are the integer multiples of \<open>1 / 2 ^ (k + 52)\<close>, a significand of 53
  bits. \<open>round_double\<close> is the rounding for \<open>0 \<le> x < 2\<close>, which covers every
  quotient \<open>a / b\<close> with \<open>a \<le> b\<close>. \<open>truediv a b\<close> is \<^verbatim>\<open>a / b\<close> for ints with
  \<open>0 \<le> a \<le> b\<close> and \<open>0 < b\<close> (Python raises \<^verbatim>\<open>ZeroDivisionError\<close> for \<open>b = 0\<close>; the
  batch loop divides by the length of a non-empty list only).
\<close>

definition round_half_even :: "rat \<Rightarrow> int" where
  "round_half_even r =
     (let f = \<lfloor>r\<rfloor>; d = r - of_int f in
      if d < 1 / 2 then f
      else if 1 / 2 < d then f + 1
      else if even f then f else f + 1)"

fun binade :: "nat \<Rightarrow> nat \<Rightarrow> rat \<Rightarrow> nat" where
  "binade 0 k x = k"
| "binade (Suc fuel) k x = (if 1 \<le> x * 2 ^ k then k else binade fuel (Suc k) x)"

definition round_double :: "rat \<Rightarrow> rat" where
  "round_double x =
     (let k = binade 1022 0 x in
      of_int (round_half_even (x * 2 ^ (k + 52))) / 2 ^ (k + 52))"

definition truediv :: "nat \<Rightarrow> nat \<Rightarrow> rat" where
  "truediv a b = round_double (of_nat a / of_nat b)"

section \<open>Uploaded files and the demo-mode automation functions\<close>

text \<open>
  An uploaded file has a \<^verbatim>\<open>name\<close>; its content is a parameter of the model.
\<close>

record 'a uploaded_file =
  name :: string
  data :: 'a

text \<open>
  \<^verbatim>\<open>app.py\<close> tries to import the three automation functions from the package
  \<^verbatim>\<open>automation_scripts\<close>; that package is not part of the repository, so the
  \<^verbatim>\<open>except ImportError\<close> branch defines them ("demo mode"). Each of them sleeps for one
  second and returns a constant. A call is modelled with explicit state passing: the last
  argument is the state of the world outside the function, here the number of seconds
  slept so far, and the result pairs the outcome with the new state. The outcome is a sum:
  \<open>Inr v\<close> for a returned value, \<open>Inl msg\<close> for a raised \<^verbatim>\<open>Exception\<close> whose \<^verbatim>\<open>str(e)\<close>
  is \<open>msg\<close>.
\<close>

type_synonym ('a, 'w) converter =
  "'a uploaded_file \<Rightarrow> string \<Rightarrow> string \<Rightarrow> 'w \<Rightarrow> (string + string) \<times> 'w"

definition convert_pdf_to_ecrs :: "('a, nat) converter" where
  "convert_pdf_to_ecrs pdf_file store_id supplier_name clock =
     (Inr ''INVOICE_DATA\<newline>ITEM1,10,100\<newline>ITEM2,5,200'', clock + 1)"

text \<open>
  A \<^verbatim>\<open>pandas.DataFrame\<close> built from a dict of columns: the columns in order, each with its
  cells. \<^verbatim>\<open>len(df)\<close> is the number of rows.
\<close>

datatype cell = Text string | Number int

type_synonym dataframe = "(string \<times> cell list) list"

definition len_df :: "dataframe \<Rightarrow> nat" where
  "len_df df = (case df of [] \<Rightarrow> 0 | (col, cells) # rest \<Rightarrow> length cells)"

definition process_supplier_excel ::
  "'f \<Rightarrow> string \<Rightarrow> nat \<Rightarrow> (string + dataframe) \<times> nat" where
  "process_supplier_excel input_file output_format clock =
     (Inr [(''Item'', [Text ''Demo1'', Text ''Demo2'']),
           (''Quantity'', [Number 10, Number 20])], clock + 1)"

section \<open>Tab 2: column mapping and format conversion\<close>

text \<open>
  The options of each mapping select box. A select box returns the option the user chose
  for its key, and its first option when the user did not touch it.
\<close>

datatype target_field = ItemName | Quantity | Price | SKU | Unit | Ignore

definition selectbox :: "(string \<times> target_field) list \<Rightarrow> string \<Rightarrow> target_field" where
  "selectbox chosen col = (case map_of chosen col of Some v \<Rightarrow> v | None \<Rightarrow> ItemName)"

text \<open>
  \<^verbatim>\<open>mapping = {}; for col in df.columns: mapping[col] = st.selectbox(...)\<close>, then
  \<^verbatim>\<open>st.session_state.column_mapping = mapping\<close>, all under \<^verbatim>\<open>len(df.columns) > 0\<close>.
  The dict is an association list in insertion order; \<^const>\<open>AList.update\<close> is
  \<^verbatim>\<open>mapping[col] = v\<close>.
\<close>

fun mapping_loop ::
  "(string \<times> target_field) list \<Rightarrow> string list \<Rightarrow> (string \<times> target_field) list
     \<Rightarrow> (string \<times> target_field) list" where
  "mapping_loop chosen [] mapping = mapping"
| "mapping_loop chosen (col # cols) mapping =
     mapping_loop chosen cols (AList.update col (selectbox chosen col) mapping)"

definition column_mapping ::
  "(string \<times> target_field) list \<Rightarrow> string list \<Rightarrow> (string \<times> target_field) list option" where
  "column_mapping chosen columns =
     (if length columns > 0 then Some (mapping_loop chosen columns []) else None)"

text \<open>
  The "Convert Format" button: without an uploaded file a warning; otherwise
  \<^verbatim>\<open>process_supplier_excel(input_file=uploaded_excel, output_format=output_format)\<close> inside
  \<^verbatim>\<open>try\<close>, an exception shown as "Conversion failed: ...". The stored column mapping is not
  an argument of the call.
\<close>

datatype tab2_outcome = Converted dataframe | ConversionFailed string | PleaseUpload

definition convert_format :: "'f option \<Rightarrow> string \<Rightarrow> nat \<Rightarrow> tab2_outcome \<times> nat" where
  "convert_format uploaded_excel output_format clock =
     (case uploaded_excel of
        None \<Rightarrow> (PleaseUpload, clock)
      | Some input_file \<Rightarrow>
          (case process_supplier_excel input_file output_format clock of
             (Inr processed_df, clock') \<Rightarrow> (Converted processed_df, clock')
           | (Inl e, clock') \<Rightarrow> (ConversionFailed (''Conversion failed: '' @ e), clock')))"

section \<open>Tab 3: batch conversion\<close>

text \<open>
  The batch loop calls whatever \<^verbatim>\<open>convert_pdf_to_ecrs\<close> is bound to, so the model takes the
  converter as a parameter, over any state of the world. The loop state is the
  \<^verbatim>\<open>results\<close> list, the values the progress bar has been set to (it is created with 0), and
  the world. \<^verbatim>\<open>enumerate\<close> supplies \<open>i\<close>; \<open>n_files\<close> is \<^verbatim>\<open>len(multiple_files)\<close>. The
  progress value \<^verbatim>\<open>(i + 1) / len(multiple_files)\<close> is the float quotient of two ints.
\<close>

record 'w batch_state =
  results :: "(string \<times> string) list"
  progress_bar :: "rat list"
  world :: 'w

fun batch_loop ::
  "('a, 'w) converter \<Rightarrow> string \<Rightarrow> string \<Rightarrow> nat \<Rightarrow> nat \<Rightarrow> 'a uploaded_file list
     \<Rightarrow> 'w batch_state \<Rightarrow> 'w batch_state" where
  "batch_loop conv selected_store invoice_supplier n_files i [] st = st"
| "batch_loop conv selected_store invoice_supplier n_files i (pdf_file # rest) st =
     (case conv pdf_file selected_store invoice_supplier (world st) of
        (Inr txt_content, w) \<Rightarrow>
          batch_loop conv selected_store invoice_supplier n_files (i + 1) rest
            (st\<lparr>results := results st @ [(name pdf_file, txt_content)],
                progress_bar := progress_bar st @ [truediv (i + 1) n_files],
                world := w\<rparr>)
      | (Inl e, w) \<Rightarrow>
          batch_loop conv selected_store invoice_supplier n_files (i + 1) rest
            (st\<lparr>results := results st @ [(name pdf_file, ''ERROR: '' @ e)],
                progress_bar := progress_bar st @ [truediv (i + 1) n_files],
                world := w\<rparr>))"

text \<open>
  \<^verbatim>\<open>for filename, content in results: zip_file.writestr(filename.replace('.pdf', '.txt'),
  content)\<close>: every call adds one entry to the archive, also under a name that is already
  there.
\<close>

fun write_zip :: "(string \<times> string) list \<Rightarrow> (string \<times> string) list \<Rightarrow> (string \<times> string) list" where
  "write_zip [] zip_file = zip_file"
| "write_zip ((filename, content) # rest) zip_file =
     write_zip rest (zip_file @ [(replace_str ''.pdf'' ''.txt'' filename, content)])"

text \<open>
  The "Convert N Invoices" button, offered when \<^verbatim>\<open>multiple_files and len(multiple_files) > 0\<close>:
  the loop, then the archive.
\<close>

definition convert_invoices ::
  "('a, 'w) converter \<Rightarrow> string \<Rightarrow> string \<Rightarrow> 'a uploaded_file list \<Rightarrow> 'w
     \<Rightarrow> ('w batch_state \<times> (string \<times> string) list) option" where
  "convert_invoices conv selected_store invoice_supplier multiple_files w =
     (if multiple_files \<noteq> [] \<and> length multiple_files > 0 then
        (let st = batch_loop conv selected_store invoice_supplier (length multiple_files) 0
                    multiple_files \<lparr>results = [], progress_bar = [0], world = w\<rparr>
         in Some (st, write_zip (results st) []))
      else None)"

section \<open>The ECRS text format in the words of the specification\<close>

text \<open>
  The specification's Standard variant, for comparison with what the code returns: every
  line is terminated by a newline and is a record
  \<^verbatim>\<open><description>,<quantity>,<unitPrice>\<close>, both numbers written as digits, a point and
  exactly two decimals.
\<close>

definition is_digit :: "char \<Rightarrow> bool" where
  "is_digit c = (c \<in> set ''0123456789'')"

definition spec_two_decimals :: "string \<Rightarrow> bool" where
  "spec_two_decimals s =
     (case rev s of
        d2 # d1 # dot # whole \<Rightarrow>
          dot = CHR ''.'' \<and> whole \<noteq> [] \<and> list_all is_digit (d1 # d2 # whole)
      | _ \<Rightarrow> False)"

definition spec_standard_record :: "string \<Rightarrow> bool" where
  "spec_standard_record line =
     (case split_on CHR '','' line of
        [description, quantity, unitPrice] \<Rightarrow>
          spec_two_decimals quantity \<and> spec_two_decimals unitPrice
      | _ \<Rightarrow> False)"

definition spec_standard_ecrs_text :: "string \<Rightarrow> bool" where
  "spec_standard_ecrs_text txt =
     ((txt = [] \<or> last txt = CHR ''\<newline>'') \<and>
      list_all spec_standard_record (butlast (split_on CHR ''\<newline>'' txt)))"

section \<open>Scenario inputs\<close>

text \<open>
  A converter standing for an imported \<^verbatim>\<open>convert_pdf_to_ecrs\<close> that can fail: it raises
  \<^verbatim>\<open>Exception("CorruptDocument")\<close> on a document that does not start like a PDF. Its world
  is the number of calls made so far.
\<close>

definition scenario_converter :: "(string, nat) converter" where
  "scenario_converter pdf_file store_id supplier_name calls =
     (if data pdf_file = ''%PDF'' then (Inr (''ECRS '' @ name pdf_file), calls + 1)
      else (Inl ''CorruptDocument'', calls + 1))"

definition three_invoices :: "string uploaded_file list" where
  "three_invoices =
     [\<lparr>name = ''invoice1.pdf'', data = ''%PDF''\<rparr>,
      \<lparr>name = ''invoice2.pdf'', data = ''garbage''\<rparr>,
      \<lparr>name = ''invoice3.pdf'', data = ''%PDF''\<rparr>]"

text \<open>An invoice whose only line item is Milk, quantity 2, unit price 3.00.\<close>

definition milk_invoice :: "(string \<times> rat \<times> rat) list uploaded_file" where
  "milk_invoice = \<lparr>name = ''milk.pdf'', data = [(''Milk'', 2, 3)]\<rparr>"

text \<open>A supplier sheet of three rows.\<close>

definition supplier_sheet :: "dataframe uploaded_file" where
  "supplier_sheet =
     \<lparr>name = ''supplier.xlsx'',
      data = [(''Item'', [Text ''Apple'', Text ''Banana'', Text ''Cherry'']),
              (''Qty'', [Number 10, Number 4, Number 7]),
              (''Cost'', [Text ''1.50'', Text ''0.75'', Text ''2.00''])]\<rparr>"

text \<open>A sheet with the two columns of the duplicate-mapping scenario.\<close>

definition duplicate_sheet :: "dataframe uploaded_file" where
  "duplicate_sheet =
     \<lparr>name = ''dup.xlsx'', data = [(''A'', [Number 1]), (''B'', [Number 2])]\<rparr>"

section \<open>Properties of the loops and of the string functions\<close>

lemma batch_loop_append:
  "batch_loop conv s p n i (xs @ ys) st =
     batch_loop conv s p n (i + length xs) ys (batch_loop conv s p n i xs st)"
  by (induction xs arbitrary: i st) (auto split: prod.splits sum.splits)

lemma batch_loop_Cons:
  "batch_loop conv s p n i (d # rest) st =
     batch_loop conv s p n (Suc i) rest
       (st\<lparr>results := results st @
                 [(name d, case fst (conv d s p (world st)) of
                             Inr txt_content \<Rightarrow> txt_content
                           | Inl e \<Rightarrow> ''ERROR: '' @ e)],
           progress_bar := progress_bar st @ [truediv (Suc i) n],
           world := snd (conv d s p (world st))\<rparr>)"
  by (simp split: prod.splits sum.splits)

lemma batch_loop_results:
  "\<exists>ext. results (batch_loop conv s p n i docs st) = results st @ ext \<and>
         length ext = length docs \<and> map fst ext = map name docs"
proof (induction docs arbitrary: i st)
  case Nil
  show ?case by simp
next
  case (Cons d docs)
  let ?st = "st\<lparr>results := results st @
                 [(name d, case fst (conv d s p (world st)) of
                             Inr txt_content \<Rightarrow> txt_content
                           | Inl e \<Rightarrow> ''ERROR: '' @ e)],
           progress_bar := progress_bar st @ [truediv (Suc i) n],
           world := snd (conv d s p (world st))\<rparr>"
  from Cons.IH [of "Suc i" ?st] obtain ext where
    ext: "results (batch_loop conv s p n (Suc i) docs ?st) = results ?st @ ext"
      "length ext = length docs" "map fst ext = map name docs"
    by blast
  have "results (batch_loop conv s p n i (d # docs) st) = results ?st @ ext"
    using ext(1) by (simp only: batch_loop_Cons)
  then show ?case using ext(2,3) by simp
qed

lemma batch_loop_progress:
  "progress_bar (batch_loop conv s p n i docs st) =
     progress_bar st @ map (\<lambda>k. truediv (Suc k) n) [i..<i + length docs]"
proof (induction docs arbitrary: i st)
  case Nil
  show ?case by simp
next
  case (Cons d docs)
  have upt: "[i..<i + length (d # docs)] = i # [Suc i..<Suc i + length docs]"
    using upt_conv_Cons [of i "i + length (d # docs)"] by simp
  show ?case
    by (simp only: batch_loop_Cons Cons.IH upt) simp
qed

lemma batch_loop_world_results:
  "results (batch_loop conv s p n i (xs @ d # ys) st) ! (length (results st) + length xs) =
     (name d, case fst (conv d s p (world (batch_loop conv s p n i xs st))) of
                Inr txt_content \<Rightarrow> txt_content
              | Inl e \<Rightarrow> ''ERROR: '' @ e)"
proof -
  let ?mid = "batch_loop conv s p n i xs st"
  obtain e1 where e1: "results ?mid = results st @ e1" "length e1 = length xs"
    using batch_loop_results [of conv s p n i xs st] by blast
  let ?st = "?mid\<lparr>results := results ?mid @
                 [(name d, case fst (conv d s p (world ?mid)) of
                             Inr txt_content \<Rightarrow> txt_content
                           | Inl e \<Rightarrow> ''ERROR: '' @ e)],
           progress_bar := progress_bar ?mid @ [truediv (Suc (i + length xs)) n],
           world := snd (conv d s p (world ?mid))\<rparr>"
  have "batch_loop conv s p n i (xs @ d # ys) st =
          batch_loop conv s p n (Suc (i + length xs)) ys ?st"
    by (simp only: batch_loop_append batch_loop_Cons)
  moreover obtain e2 where
    "results (batch_loop conv s p n (Suc (i + length xs)) ys ?st) = results ?st @ e2"
    using batch_loop_results [of conv s p n "Suc (i + length xs)" ys ?st] by blast
  ultimately have "results (batch_loop conv s p n i (xs @ d # ys) st) =
      (results st @ e1) @ (name d, case fst (conv d s p (world ?mid)) of
                             Inr txt_content \<Rightarrow> txt_content
                           | Inl e \<Rightarrow> ''ERROR: '' @ e) # e2"
    using e1(1) by simp
  then show ?thesis
    using e1(2) by (simp add: nth_append)
qed

lemma write_zip_eq:
  "write_zip rs zf = zf @ map (\<lambda>(filename, content). (replace_str ''.pdf'' ''.txt'' filename, content)) rs"
  by (induction rs arbitrary: zf) auto

lemma replace_str_skip:
  "old \<noteq> [] \<Longrightarrow> s \<noteq> [] \<Longrightarrow> take (length old) s \<noteq> old \<Longrightarrow>
     replace_str old new s = hd s # replace_str old new (tl s)"
  by (subst replace_str.simps) simp

lemma replace_str_match:
  "old \<noteq> [] \<Longrightarrow> replace_str old new (old @ s) = new @ replace_str old new s"
  by (subst replace_str.simps) simp

lemma replace_str_Nil: "old \<noteq> [] \<Longrightarrow> replace_str old new [] = []"
  by (subst replace_str.simps) simp

lemma pdf_not_at_front:
  assumes "\<not> prefix ''.pdf'' (c # cs)"
  shows "take (length ''.pdf'') ((c # cs) @ ''.pdf'') \<noteq> ''.pdf''"
proof (cases cs)
  case Nil
  then show ?thesis by auto
next
  case c1: (Cons a as)
  show ?thesis
  proof (cases as)
    case Nil
    then show ?thesis using c1 by auto
  next
    case c2: (Cons b bs)
    show ?thesis
    proof (cases bs)
      case Nil
      then show ?thesis using c1 c2 by auto
    next
      case (Cons e es)
      then show ?thesis using c1 c2 assms by auto
    qed
  qed
qed

lemma replace_pdf_suffix:
  "\<not> sublist ''.pdf'' base \<Longrightarrow> replace_str ''.pdf'' ''.txt'' (base @ ''.pdf'') = base @ ''.txt''"
proof (induction base)
  case Nil
  have "replace_str ''.pdf'' ''.txt'' (''.pdf'' @ []) = ''.txt'' @ replace_str ''.pdf'' ''.txt'' []"
    by (rule replace_str_match) simp
  then show ?case by (simp add: replace_str_Nil)
next
  case (Cons c cs)
  have ns: "\<not> sublist ''.pdf'' cs"
    using Cons.prems by (auto simp: sublist_Cons_right)
  have np: "\<not> prefix ''.pdf'' (c # cs)"
    using Cons.prems by (auto simp: sublist_Cons_right)
  have "replace_str ''.pdf'' ''.txt'' ((c # cs) @ ''.pdf'') =
          hd ((c # cs) @ ''.pdf'') # replace_str ''.pdf'' ''.txt'' (tl ((c # cs) @ ''.pdf''))"
    by (rule replace_str_skip [OF _ _ pdf_not_at_front [OF np]]) simp_all
  then show ?case
    using Cons.IH [OF ns] by simp
qed

lemma mapping_loop_lookup:
  "map_of (mapping_loop chosen columns mapping) col =
     (if col \<in> set columns then Some (selectbox chosen col) else map_of mapping col)"
  by (induction columns arbitrary: mapping) (auto simp: update_conv)

lemma convert_invoices_Some:
  assumes "convert_invoices conv s p files w = Some (st, zf)"
  shows "files \<noteq> []"
    and "st = batch_loop conv s p (length files) 0 files
                \<lparr>results = [], progress_bar = [0], world = w\<rparr>"
    and "zf = map (\<lambda>(filename, content). (replace_str ''.pdf'' ''.txt'' filename, content))
                (results st)"
  using assms by (auto simp: convert_invoices_def Let_def write_zip_eq split: if_splits)

lemma batch_results_from_empty:
  assumes "results st0 = []"
  shows "length (results (batch_loop conv s p n i docs st0)) = length docs"
    and "map fst (results (batch_loop conv s p n i docs st0)) = map name docs"
  using batch_loop_results [of conv s p n i docs st0] assms by auto

lemma round_half_even_ge: "of_int m \<le> r \<Longrightarrow> m \<le> round_half_even r"
proof -
  assume "of_int m \<le> r"
  then have "m \<le> \<lfloor>r\<rfloor>" by (simp add: le_floor_iff)
  moreover have "\<lfloor>r\<rfloor> \<le> round_half_even r"
    by (auto simp: round_half_even_def Let_def)
  ultimately show ?thesis by linarith
qed

lemma round_half_even_le: "r \<le> of_int m \<Longrightarrow> round_half_even r \<le> m"
proof -
  assume a: "r \<le> of_int m"
  show ?thesis
  proof (cases "r = of_int m")
    case True
    then show ?thesis by (simp add: round_half_even_def)
  next
    case False
    then have "r < of_int m" using a by simp
    then have "\<lfloor>r\<rfloor> < m" by (simp add: floor_less_iff)
    then show ?thesis by (auto simp: round_half_even_def Let_def)
  qed
qed

lemma round_half_even_of_int: "round_half_even (of_int m) = m"
  by (simp add: round_half_even_def)

lemma round_half_even_mono:
  assumes "r1 \<le> r2"
  shows "round_half_even r1 \<le> round_half_even r2"
proof (cases "\<lfloor>r1\<rfloor> = \<lfloor>r2\<rfloor>")
  case True
  then show ?thesis
    using assms by (auto simp: round_half_even_def Let_def)
next
  case False
  then have "\<lfloor>r1\<rfloor> < \<lfloor>r2\<rfloor>"
    using assms floor_mono [OF assms] by simp
  then have "\<lfloor>r1\<rfloor> + 1 \<le> \<lfloor>r2\<rfloor>" by simp
  moreover have "round_half_even r1 \<le> \<lfloor>r1\<rfloor> + 1"
    by (auto simp: round_half_even_def Let_def)
  moreover have "\<lfloor>r2\<rfloor> \<le> round_half_even r2"
    by (auto simp: round_half_even_def Let_def)
  ultimately show ?thesis by linarith
qed


lemma binade_bound: "binade fuel k x \<le> k + fuel"
proof (induction fuel arbitrary: k)
  case 0
  show ?case by simp
next
  case (Suc fuel)
  show ?case using Suc [of "Suc k"] by auto
qed

lemma binade_lower: "k \<le> binade fuel k x"
proof (induction fuel arbitrary: k)
  case 0
  show ?case by simp
next
  case (Suc fuel)
  show ?case using Suc [of "Suc k"] by auto
qed

lemma binade_reached: "binade fuel k x < k + fuel \<Longrightarrow> 1 \<le> x * 2 ^ binade fuel k x"
proof (induction fuel arbitrary: k)
  case 0
  then show ?case by simp
next
  case (Suc fuel)
  then show ?case using Suc.IH [of "Suc k"] by (auto split: if_splits)
qed

lemma binade_before: "k \<le> j \<Longrightarrow> j < binade fuel k x \<Longrightarrow> x * 2 ^ j < 1"
proof (induction fuel arbitrary: k)
  case 0
  then show ?case by simp
next
  case (Suc fuel)
  show ?case
  proof (cases "1 \<le> x * 2 ^ k")
    case True
    then show ?thesis using Suc.prems by simp
  next
    case False
    show ?thesis
    proof (cases "j = k")
      case True
      then show ?thesis using False by simp
    next
      case False
      then show ?thesis using Suc.prems Suc.IH [of "Suc k"] \<open>\<not> 1 \<le> x * 2 ^ k\<close> by simp
    qed
  qed
qed

lemma binade_antimono:
  assumes "x \<le> y"
  shows "binade fuel 0 y \<le> binade fuel 0 x"
proof (rule ccontr)
  assume "\<not> ?thesis"
  then have lt: "binade fuel 0 x < binade fuel 0 y" by simp
  have "binade fuel 0 y \<le> 0 + fuel" by (rule binade_bound)
  then have "binade fuel 0 x < 0 + fuel" using lt by simp
  then have "1 \<le> x * 2 ^ binade fuel 0 x" by (rule binade_reached)
  also have "\<dots> \<le> y * 2 ^ binade fuel 0 x"
    using assms by (simp add: mult_right_mono)
  also have "\<dots> < 1"
    using lt by (intro binade_before) simp_all
  finally show False by simp
qed

lemma round_double_mono:
  assumes "x \<le> y"
  shows "round_double x \<le> round_double y"
proof -
  define kx where "kx = binade 1022 0 x"
  define ky where "ky = binade 1022 0 y"
  have rx: "round_double x = of_int (round_half_even (x * 2 ^ (kx + 52))) / 2 ^ (kx + 52)"
    by (simp add: round_double_def kx_def Let_def)
  have ry: "round_double y = of_int (round_half_even (y * 2 ^ (ky + 52))) / 2 ^ (ky + 52)"
    by (simp add: round_double_def ky_def Let_def)
  have le: "ky \<le> kx"
    unfolding kx_def ky_def by (rule binade_antimono [OF assms])
  show ?thesis
  proof (cases "ky = kx")
    case True
    have "x * 2 ^ (kx + 52) \<le> y * 2 ^ (kx + 52)"
      using assms by (simp add: mult_right_mono)
    then have "round_half_even (x * 2 ^ (kx + 52)) \<le> round_half_even (y * 2 ^ (kx + 52))"
      by (rule round_half_even_mono)
    then show ?thesis
      unfolding rx ry True by (simp add: divide_right_mono)
  next
    case False
    then have lt: "ky < kx" using le by simp
    have "ky \<le> 0 + 1022" unfolding ky_def by (rule binade_bound)
    have "kx \<le> 0 + 1022" unfolding kx_def by (rule binade_bound)
    then have "ky < 0 + 1022" using lt by simp
    then have y1: "1 \<le> y * 2 ^ ky"
      unfolding ky_def by (rule binade_reached)
    have x1: "x * 2 ^ ky < 1"
      using lt unfolding kx_def by (intro binade_before) simp_all
    have "of_int (2 ^ 52) \<le> y * 2 ^ (ky + 52)"
      using y1 by (simp add: power_add mult_right_mono)
    then have "2 ^ 52 \<le> round_half_even (y * 2 ^ (ky + 52))"
      by (rule round_half_even_ge)
    then have "(of_int (2 ^ 52) :: rat) \<le> of_int (round_half_even (y * 2 ^ (ky + 52)))"
      by (simp only: of_int_le_iff)
    then have "(of_int (2 ^ 52) :: rat) / 2 ^ (ky + 52) \<le> round_double y"
      unfolding ry by (simp add: divide_right_mono)
    then have ylow: "1 / 2 ^ ky \<le> round_double y"
      by (simp add: power_add)
    obtain d where d: "kx = ky + d" using lt by (metis less_imp_add_positive)
    have "x * 2 ^ (kx + 52) = (x * 2 ^ ky) * 2 ^ (d + 52)"
      unfolding d by (simp add: power_add)
    also have "\<dots> \<le> 1 * 2 ^ (d + 52)"
      using x1 by (intro mult_right_mono) simp_all
    finally have "x * 2 ^ (kx + 52) \<le> of_int (2 ^ (d + 52))" by simp
    then have "round_half_even (x * 2 ^ (kx + 52)) \<le> 2 ^ (d + 52)"
      by (rule round_half_even_le)
    then have "(of_int (round_half_even (x * 2 ^ (kx + 52))) :: rat) \<le> of_int (2 ^ (d + 52))"
      by (simp only: of_int_le_iff)
    then have "round_double x \<le> of_int (2 ^ (d + 52)) / 2 ^ (kx + 52)"
      unfolding rx by (simp add: divide_right_mono)
    also have "(of_int (2 ^ (d + 52)) :: rat) / 2 ^ (kx + 52) = 1 / 2 ^ ky"
      unfolding d by (simp add: power_add)
    finally show ?thesis using ylow by simp
  qed
qed

lemma round_double_one: "round_double 1 = 1"
proof -
  have "binade 1022 0 1 = 0"
    by (simp add: numeral_eq_Suc)
  moreover have "round_half_even (1 * 2 ^ 52) = 2 ^ 52"
    using round_half_even_of_int [of "2 ^ 52"] by simp
  ultimately show ?thesis
    by (simp add: round_double_def)
qed

lemma round_double_nonneg: "0 \<le> x \<Longrightarrow> 0 \<le> round_double x"
proof -
  assume "0 \<le> x"
  then have "of_int 0 \<le> x * 2 ^ (binade 1022 0 x + 52)" by simp
  then have "0 \<le> round_half_even (x * 2 ^ (binade 1022 0 x + 52))"
    by (rule round_half_even_ge)
  then show ?thesis
    by (simp add: round_double_def Let_def)
qed

lemma round_double_grid:
  assumes "0 \<le> m" and "m \<le> 2 ^ 53"
  shows "round_double (of_int m / 2 ^ 53) = of_int m / 2 ^ 53"
proof -
  define z :: rat where "z = of_int m / 2 ^ 53"
  define k where "k = binade 1022 0 z"
  have rz: "round_double z = of_int (round_half_even (z * 2 ^ (k + 52))) / 2 ^ (k + 52)"
    by (simp add: round_double_def k_def Let_def)
  show ?thesis
  proof (cases k)
    case 0
    have "binade 1022 0 z < 0 + 1022" using 0 k_def by simp
    then have "1 \<le> z * 2 ^ binade 1022 0 z" by (rule binade_reached)
    then have "1 \<le> z" using 0 k_def by simp
    then have "(2 ^ 53 :: rat) \<le> of_int m"
      unfolding z_def by (simp add: le_divide_eq)
    then have "(of_int (2 ^ 53) :: rat) \<le> of_int m" by simp
    then have "2 ^ 53 \<le> m" by (simp only: of_int_le_iff)
    then have "m = 2 ^ 53" using assms(2) by simp
    then have "z = 1" unfolding z_def by simp
    then show ?thesis using round_double_one z_def by simp
  next
    case (Suc j)
    have "z * 2 ^ (k + 52) = of_int m * 2 ^ j * (2 ^ 53 / 2 ^ 53)"
      unfolding z_def Suc by (simp add: power_add)
    also have "\<dots> = of_int (m * 2 ^ j)" by simp
    finally have "round_half_even (z * 2 ^ (k + 52)) = m * 2 ^ j"
      by (simp only: round_half_even_of_int)
    then have "round_double z = of_int (m * 2 ^ j) / 2 ^ (k + 52)"
      unfolding rz by simp
    also have "\<dots> = of_int m * (2 ^ j / 2 ^ j) / 2 ^ 53"
      unfolding Suc by (simp add: power_add)
    also have "\<dots> = of_int m / 2 ^ 53" by simp
    finally show ?thesis unfolding z_def .
  qed
qed

lemma round_double_strict:
  assumes "0 \<le> x" and "y \<le> 1" and "x + 1 / 2 ^ 52 \<le> y"
  shows "round_double x < round_double y"
proof -
  define m where "m = \<lceil>x * 2 ^ 53\<rceil>"
  have up: "x * 2 ^ 53 \<le> of_int m"
    unfolding m_def by (rule le_of_int_ceiling)
  have lo: "of_int m < x * 2 ^ 53 + 1"
    unfolding m_def using ceiling_correct [of "x * 2 ^ 53"] by linarith
  have m0: "0 \<le> m"
    unfolding m_def using assms(1) by (simp add: ceiling_le_iff le_ceiling_iff)
  have z1: "x \<le> of_int m / 2 ^ 53"
    using up by (simp add: le_divide_eq)
  have "of_int (m + 1) / 2 ^ 53 < (x * 2 ^ 53 + 2) / (2 ^ 53 :: rat)"
    using lo by (simp add: divide_strict_right_mono)
  also have "(x * 2 ^ 53 + 2) / (2 ^ 53 :: rat) = x + 1 / 2 ^ 52"
    by (simp add: add_divide_distrib)
  finally have z2: "of_int (m + 1) / 2 ^ 53 < y"
    using assms(3) by simp
  then have "of_int (m + 1) / (2 ^ 53 :: rat) < 1"
    using assms(2) by simp
  then have "(of_int (m + 1) :: rat) < of_int (2 ^ 53)"
    by (simp add: divide_less_eq)
  then have "m + 1 < 2 ^ 53"
    by (simp only: of_int_less_iff)
  then have b1: "m \<le> 2 ^ 53" and b2: "m + 1 \<le> 2 ^ 53" by simp_all
  have "round_double x \<le> round_double (of_int m / 2 ^ 53)"
    using z1 by (rule round_double_mono)
  also have "\<dots> = of_int m / 2 ^ 53"
    using m0 b1 by (rule round_double_grid)
  also have "\<dots> < of_int (m + 1) / 2 ^ 53"
    by (simp add: divide_strict_right_mono)
  also have "\<dots> = round_double (of_int (m + 1) / 2 ^ 53)"
    using m0 b2 by (intro round_double_grid [symmetric]) simp_all
  also have "\<dots> \<le> round_double y"
    using z2 by (intro round_double_mono) simp
  finally show ?thesis .
qed

lemma truediv_mono: "a \<le> b \<Longrightarrow> truediv a n \<le> truediv b n"
  unfolding truediv_def by (intro round_double_mono divide_right_mono) simp_all

lemma truediv_self: "0 < n \<Longrightarrow> truediv n n = 1"
  unfolding truediv_def by (simp add: round_double_one)

lemma truediv_nonneg: "0 \<le> truediv a n"
  unfolding truediv_def by (intro round_double_nonneg) simp

lemma truediv_strict:
  assumes "a < b" and "b \<le> n" and "n \<le> 2 ^ 52"
  shows "truediv a n < truediv b n"
proof -
  have n0: "0 < n" using assms by simp
  have "(of_nat n :: rat) \<le> of_nat (2 ^ 52)"
    using assms(3) by (simp only: of_nat_le_iff)
  then have "(of_nat n :: rat) \<le> 2 ^ 52" by simp
  then have inv: "1 / 2 ^ 52 \<le> 1 / (of_nat n :: rat)"
    using n0 by (simp add: frac_le)
  have "(of_nat a :: rat) + 1 \<le> of_nat b"
    using assms(1) by (metis Suc_leI of_nat_Suc of_nat_le_iff add.commute)
  then have "((of_nat a :: rat) + 1) / of_nat n \<le> of_nat b / of_nat n"
    by (simp add: divide_right_mono)
  then have gap: "(of_nat a :: rat) / of_nat n + 1 / 2 ^ 52 \<le> of_nat b / of_nat n"
    using inv by (simp add: add_divide_distrib)
  have top: "(of_nat b :: rat) / of_nat n \<le> 1"
    using assms(2) n0 by (simp add: divide_le_eq)
  show ?thesis
    unfolding truediv_def by (rule round_double_strict [OF _ top gap]) simp
qed

text \<open>
  The model gives the floats Python computes: \<^verbatim>\<open>1 / 3\<close> is \<^verbatim>\<open>0.3333333333333333\<close>, that is
  \<open>6004799503160661 / 2 ^ 54\<close>; \<^verbatim>\<open>2 / 3\<close> is \<^verbatim>\<open>0.6666666666666666\<close>; \<^verbatim>\<open>1 / 10\<close> is
  \<open>3602879701896397 / 2 ^ 55\<close>; and \<^verbatim>\<open>(2**54 - 1) / 2**54\<close> rounds to \<^verbatim>\<open>1.0\<close>, so that
  strict growth cannot hold for lists of any length.
\<close>

lemma truediv_examples:
  "truediv 1 3 = 6004799503160661 / 18014398509481984 \<and>
   truediv 2 3 = 6004799503160661 / 9007199254740992 \<and>
   truediv 1 10 = 3602879701896397 / 36028797018963968"
  by code_simp

lemma truediv_rounds_to_one: "truediv (2 ^ 54 - 1) (2 ^ 54) = 1"
proof -
  have "(of_nat (2 ^ 54 - 1) :: rat) / of_nat (2 ^ 54) = 18014398509481983 / 18014398509481984"
    by simp
  moreover have "round_double (18014398509481983 / 18014398509481984) = 1"
    by code_simp
  ultimately show ?thesis
    by (simp only: truediv_def)
qed

lemma progress_values_sorted:
  "sorted_wrt (\<le>) (0 # map (\<lambda>k. truediv (Suc k) n) [0..<m])"
proof -
  have "sorted_wrt (\<lambda>a b. truediv (Suc a) n \<le> truediv (Suc b) n) [0..<m]"
  proof (rule sorted_wrt_mono_rel [of _ "(<)"])
    show "sorted_wrt (<) [0..<m]" by simp
  next
    fix a b :: nat
    assume "a < b"
    then show "truediv (Suc a) n \<le> truediv (Suc b) n"
      by (intro truediv_mono) simp
  qed
  then show ?thesis
    by (simp add: sorted_wrt_map truediv_nonneg)
qed

lemma progress_values_increasing:
  assumes "n \<le> 2 ^ 52"
  shows "sorted_wrt (<) (0 # map (\<lambda>k. truediv (Suc k) n) [0..<n])"
proof -
  have pos: "0 < truediv (Suc k) n" if "k < n" for k
  proof -
    have "truediv 0 n < truediv (Suc k) n"
      using that assms by (intro truediv_strict) simp_all
    then show ?thesis
      using truediv_nonneg [of 0 n] by simp
  qed
  have "sorted_wrt (\<lambda>a b. truediv (Suc a) n < truediv (Suc b) n) [0..<n]"
  proof (rule sorted_wrt_mono_rel [of _ "(<)"])
    show "sorted_wrt (<) [0..<n]" by simp
  next
    fix a b :: nat
    assume "a \<in> set [0..<n]" and "b \<in> set [0..<n]" and "a < b"
    then show "truediv (Suc a) n < truediv (Suc b) n"
      using assms by (intro truediv_strict) simp_all
  qed
  then show ?thesis
    using pos by (simp add: sorted_wrt_map)
qed

section \<open>The demo-mode conversion\<close>

text \<open>
  Claim C9. In demo mode the output of \<^verbatim>\<open>convert_pdf_to_ecrs\<close> does not depend on any of
  its inputs: two calls with arbitrary, possibly different documents, store ids, supplier
  names and states of the world return the same constant text, so the text says nothing
  about the document.
\<close>

theorem demo_conversion_constant:
  "fst (convert_pdf_to_ecrs pdf_file1 store_id1 supplier_name1 clock1) =
     fst (convert_pdf_to_ecrs pdf_file2 store_id2 supplier_name2 clock2) \<and>
   fst (convert_pdf_to_ecrs pdf_file1 store_id1 supplier_name1 clock1) =
     Inr ''INVOICE_DATA\<newline>ITEM1,10,100\<newline>ITEM2,5,200''"
  by (simp add: convert_pdf_to_ecrs_def)


text \<open>
  Claim C1, as stated, fails on the code: for the Milk invoice the conversion does not
  return \<^verbatim>\<open>"Milk,2.00,3.00\n"\<close>, and what it returns is not in the specification's
  Standard format (which the expected text is).
\<close>

theorem standard_encoding_counterexample:
  "convert_pdf_to_ecrs milk_invoice ''STORE001'' ''Supplier A'' 0 =
     (Inr ''INVOICE_DATA\<newline>ITEM1,10,100\<newline>ITEM2,5,200'', 1) \<and>
   ''INVOICE_DATA\<newline>ITEM1,10,100\<newline>ITEM2,5,200'' \<noteq> ''Milk,2.00,3.00\<newline>'' \<and>
   \<not> spec_standard_ecrs_text ''INVOICE_DATA\<newline>ITEM1,10,100\<newline>ITEM2,5,200'' \<and>
   spec_standard_ecrs_text ''Milk,2.00,3.00\<newline>''"
  by (simp add: convert_pdf_to_ecrs_def spec_standard_ecrs_text_def spec_standard_record_def
      spec_two_decimals_def is_digit_def)

text \<open>
  Claim C1, amended. In demo mode the conversion returns, for every document, store id and
  supplier name, plain text of three lines separated by newlines with none after the last:
  the header \<^verbatim>\<open>INVOICE_DATA\<close>, then the records \<^verbatim>\<open>ITEM1,10,100\<close> and \<^verbatim>\<open>ITEM2,5,200\<close>, each
  of three comma-delimited fields with the numbers written as plain digits.
\<close>

theorem demo_text_format:
  "\<exists>txt. fst (convert_pdf_to_ecrs pdf_file store_id supplier_name clock) = Inr txt \<and>
     split_on CHR ''\<newline>'' txt = [''INVOICE_DATA'', ''ITEM1,10,100'', ''ITEM2,5,200''] \<and>
     map (split_on CHR '','') (tl (split_on CHR ''\<newline>'' txt)) =
       [[''ITEM1'', ''10'', ''100''], [''ITEM2'', ''5'', ''200'']] \<and>
     list_all (list_all is_digit) (concat (map tl (map (split_on CHR '','') (tl (split_on CHR ''\<newline>'' txt)))))"
  by (simp add: convert_pdf_to_ecrs_def is_digit_def)

section \<open>Column mapping and format conversion\<close>

text \<open>
  Claim C5, as stated, fails on the code: for a sheet of three rows, with a valid column
  mapping that has no duplicate target, the conversion returns a table of two rows.
\<close>

theorem row_count_counterexample:
  "column_mapping [(''Item'', ItemName), (''Qty'', Quantity), (''Cost'', Price)]
       (map fst (data supplier_sheet)) =
     Some [(''Item'', ItemName), (''Qty'', Quantity), (''Cost'', Price)] \<and>
   len_df (data supplier_sheet) = 3 \<and>
   convert_format (Some supplier_sheet) ''Standard Order Sheet'' 0 =
     (Converted [(''Item'', [Text ''Demo1'', Text ''Demo2'']),
                 (''Quantity'', [Number 10, Number 20])], 1) \<and>
   len_df [(''Item'', [Text ''Demo1'', Text ''Demo2'']),
           (''Quantity'', [Number 10, Number 20])] = 2"
  by (simp add: column_mapping_def selectbox_def supplier_sheet_def len_df_def
      convert_format_def process_supplier_excel_def)

text \<open>
  Claim C5, amended. For every input file and output format the demo-mode
  \<^verbatim>\<open>process_supplier_excel\<close>, which receives neither the column mapping nor reads the input
  table, succeeds and returns the table with the columns Item and Quantity and exactly two
  rows, whatever the number of rows of the input.
\<close>

theorem demo_row_count:
  "\<exists>processed_df.
     fst (process_supplier_excel input_file output_format clock) = Inr processed_df \<and>
     map fst processed_df = [''Item'', ''Quantity''] \<and>
     len_df processed_df = 2"
  by (simp add: process_supplier_excel_def len_df_def)

text \<open>
  Claim C6, as stated, fails on the code: the mapping that sends both \<^verbatim>\<open>A\<close> and \<^verbatim>\<open>B\<close> to
  Quantity is stored as it is, and the conversion of that sheet returns a table, not an
  error.
\<close>

theorem duplicate_mapping_counterexample:
  "column_mapping [(''A'', Quantity), (''B'', Quantity)] (map fst (data duplicate_sheet)) =
     Some [(''A'', Quantity), (''B'', Quantity)] \<and>
   convert_format (Some duplicate_sheet) ''Standard Order Sheet'' 0 =
     (Converted [(''Item'', [Text ''Demo1'', Text ''Demo2'']),
                 (''Quantity'', [Number 10, Number 20])], 1)"
  by (simp add: column_mapping_def selectbox_def duplicate_sheet_def
      convert_format_def process_supplier_excel_def)

text \<open>
  Claim C6, amended. Every column mapping is recorded without validation: each column of
  the sheet is mapped to the field chosen in its select box, also when two columns are given
  the same non-Ignore field, and the conversion, which is not passed the mapping, returns a
  table; no duplicate-mapping error exists.
\<close>

theorem mapping_recorded_unvalidated:
  assumes "col \<in> set columns"
  shows "(\<exists>mapping. column_mapping chosen columns = Some mapping \<and>
            map_of mapping col = Some (selectbox chosen col)) \<and>
         (\<exists>processed_df.
            fst (convert_format (Some input_file) output_format clock) = Converted processed_df)"
proof -
  have "columns \<noteq> []" using assms by auto
  then have "column_mapping chosen columns = Some (mapping_loop chosen columns [])"
    by (simp add: column_mapping_def)
  moreover have "map_of (mapping_loop chosen columns []) col = Some (selectbox chosen col)"
    using assms by (simp add: mapping_loop_lookup)
  moreover have "fst (convert_format (Some input_file) output_format clock) =
      Converted [(''Item'', [Text ''Demo1'', Text ''Demo2'']),
                 (''Quantity'', [Number 10, Number 20])]"
    by (simp add: convert_format_def process_supplier_excel_def)
  ultimately show ?thesis by blast
qed

text \<open>
  The amended claim at the duplicate mapping \<^verbatim>\<open>{"A": Quantity, "B": Quantity}\<close>.
\<close>

theorem mapping_recorded_unvalidated_witness:
  "''B'' \<in> set [''A'', ''B''] \<and>
   (\<exists>mapping. column_mapping [(''A'', Quantity), (''B'', Quantity)] [''A'', ''B''] = Some mapping \<and>
      map_of mapping ''B'' = Some Quantity \<and> map_of mapping ''A'' = Some Quantity) \<and>
   (\<exists>processed_df.
      fst (convert_format (Some duplicate_sheet) ''Standard Order Sheet'' 0) = Converted processed_df)"
proof -
  have b: "''B'' \<in> set [''A'', ''B'']" by simp
  have a: "''A'' \<in> set [''A'', ''B'']" by simp
  show ?thesis
    using b
      mapping_recorded_unvalidated [OF b, of "[(''A'', Quantity), (''B'', Quantity)]"
        duplicate_sheet "''Standard Order Sheet''" 0]
      mapping_recorded_unvalidated [OF a, of "[(''A'', Quantity), (''B'', Quantity)]"
        duplicate_sheet "''Standard Order Sheet''" 0]
    by (auto simp: selectbox_def)
qed

section \<open>The batch run\<close>

text \<open>
  Claim C2, as stated, fails on the code: for three documents of which the second is
  corrupt, the batch returns one sequence of three entries, the failure among them; the
  result is not the two successes alone and has no separate failed part.
\<close>

theorem batch_scenario_counterexample:
  "map_option (results \<circ> fst)
     (convert_invoices scenario_converter ''STORE001'' ''Supplier A'' three_invoices 0) =
     Some [(''invoice1.pdf'', ''ECRS invoice1.pdf''),
           (''invoice2.pdf'', ''ERROR: CorruptDocument''),
           (''invoice3.pdf'', ''ECRS invoice3.pdf'')] \<and>
   map_option (results \<circ> fst)
     (convert_invoices scenario_converter ''STORE001'' ''Supplier A'' three_invoices 0) \<noteq>
     Some [(''invoice1.pdf'', ''ECRS invoice1.pdf''),
           (''invoice3.pdf'', ''ECRS invoice3.pdf'')]"
  by (simp add: convert_invoices_def three_invoices_def scenario_converter_def)

text \<open>
  Claim C2, amended. For a batch of three documents in which the conversion of document 2
  raises an error and documents 1 and 3 convert, the batch run returns a single
  \<^verbatim>\<open>results\<close> sequence of exactly three entries in input order: documents 1 and 3 with
  their converted text, document 2 with the text \<^verbatim>\<open>"ERROR: "\<close> followed by the error message.
\<close>

theorem batch_of_three_with_failure:
  assumes "conv d1 s p w = (Inr t1, w1)"
    and "conv d2 s p w1 = (Inl msg, w2)"
    and "conv d3 s p w2 = (Inr t3, w3)"
  shows "map_option fst (convert_invoices conv s p [d1, d2, d3] w) =
           Some \<lparr>results = [(name d1, t1), (name d2, ''ERROR: '' @ msg), (name d3, t3)],
                 progress_bar = [0, truediv 1 3, truediv 2 3, truediv 3 3],
                 world = w3\<rparr>"
  using assms by (simp add: convert_invoices_def numeral_2_eq_2 numeral_3_eq_3)

text \<open>
  The amended claim at the three invoices, the second one corrupt.
\<close>

theorem batch_of_three_with_failure_witness:
  "scenario_converter (three_invoices ! 0) ''STORE001'' ''Supplier A'' 0 =
     (Inr ''ECRS invoice1.pdf'', 1) \<and>
   scenario_converter (three_invoices ! 1) ''STORE001'' ''Supplier A'' 1 =
     (Inl ''CorruptDocument'', 2) \<and>
   scenario_converter (three_invoices ! 2) ''STORE001'' ''Supplier A'' 2 =
     (Inr ''ECRS invoice3.pdf'', 3) \<and>
   map_option fst
     (convert_invoices scenario_converter ''STORE001'' ''Supplier A''
        [three_invoices ! 0, three_invoices ! 1, three_invoices ! 2] 0) =
     Some \<lparr>results = [(''invoice1.pdf'', ''ECRS invoice1.pdf''),
                      (''invoice2.pdf'', ''ERROR: CorruptDocument''),
                      (''invoice3.pdf'', ''ECRS invoice3.pdf'')],
           progress_bar = [0, truediv 1 3, truediv 2 3, truediv 3 3],
           world = 3\<rparr>"
proof -
  have h1: "scenario_converter (three_invoices ! 0) ''STORE001'' ''Supplier A'' 0 =
     (Inr ''ECRS invoice1.pdf'', 1)"
    by (simp add: scenario_converter_def three_invoices_def)
  have h2: "scenario_converter (three_invoices ! 1) ''STORE001'' ''Supplier A'' 1 =
     (Inl ''CorruptDocument'', 2)"
    by (simp add: scenario_converter_def three_invoices_def)
  have h3: "scenario_converter (three_invoices ! 2) ''STORE001'' ''Supplier A'' 2 =
     (Inr ''ECRS invoice3.pdf'', 3)"
    by (simp add: scenario_converter_def three_invoices_def)
  show ?thesis
    using h1 h2 h3
      batch_of_three_with_failure [where conv = scenario_converter
        and ?d1.0 = "three_invoices ! 0" and ?d2.0 = "three_invoices ! 1"
        and ?d3.0 = "three_invoices ! 2", OF h1 h2 h3]
    by (simp add: three_invoices_def)
qed



text \<open>
  Claim C10. For every list of input documents the batch loop appends exactly one
  \<^verbatim>\<open>(filename, content)\<close> entry per document, in input order; the content of entry \<open>j\<close> is
  the text the converter returned for document \<open>j\<close>, or \<^verbatim>\<open>"ERROR: "\<close> followed by the
  exception message when it raised; and the archive has exactly one entry per input
  document, with the same contents, the failed documents included.
\<close>

theorem one_entry_per_document:
  assumes "convert_invoices conv s p files w = Some (st, zf)"
  shows "length (results st) = length files \<and>
         map fst (results st) = map name files \<and>
         (\<forall>j<length files.
            snd (results st ! j) =
              (case fst (conv (files ! j) s p
                      (world (batch_loop conv s p (length files) 0 (take j files)
                                \<lparr>results = [], progress_bar = [0], world = w\<rparr>))) of
                 Inr txt_content \<Rightarrow> txt_content
               | Inl e \<Rightarrow> ''ERROR: '' @ e)) \<and>
         length zf = length files \<and>
         map snd zf = map snd (results st)"
proof -
  let ?st0 = "\<lparr>results = [], progress_bar = [0::rat], world = w\<rparr>"
  note cs = convert_invoices_Some [OF assms]
  have len: "length (results st) = length files"
    and names: "map fst (results st) = map name files"
    using batch_results_from_empty [of ?st0 conv s p "length files" 0 files] cs(2) by simp_all
  have entry: "snd (results st ! j) =
              (case fst (conv (files ! j) s p
                      (world (batch_loop conv s p (length files) 0 (take j files) ?st0))) of
                 Inr txt_content \<Rightarrow> txt_content
               | Inl e \<Rightarrow> ''ERROR: '' @ e)" if "j < length files" for j
  proof -
    have split: "files = take j files @ files ! j # drop (Suc j) files"
      using that by (simp add: id_take_nth_drop)
    have "results (batch_loop conv s p (length files) 0
             (take j files @ files ! j # drop (Suc j) files) ?st0) !
            (length (results ?st0) + length (take j files)) =
          (name (files ! j),
           case fst (conv (files ! j) s p
                      (world (batch_loop conv s p (length files) 0 (take j files) ?st0))) of
             Inr txt_content \<Rightarrow> txt_content
           | Inl e \<Rightarrow> ''ERROR: '' @ e)"
      by (rule batch_loop_world_results)
    moreover have "length (results ?st0) + length (take j files) = j"
      using that by simp
    ultimately show ?thesis
      using split cs(2) by simp
  qed
  have zlen: "length zf = length files"
    using cs(3) len by simp
  have zcontent: "map snd zf = map snd (results st)"
    using cs(3) by (simp add: case_prod_unfold)
  show ?thesis
    using len names entry zlen zcontent by blast
qed

text \<open>
  Claim C10 at the three invoices.
\<close>

theorem one_entry_per_document_witness:
  "convert_invoices scenario_converter ''STORE001'' ''Supplier A'' three_invoices 0 =
     Some (\<lparr>results = [(''invoice1.pdf'', ''ECRS invoice1.pdf''),
                        (''invoice2.pdf'', ''ERROR: CorruptDocument''),
                        (''invoice3.pdf'', ''ECRS invoice3.pdf'')],
             progress_bar = [0, truediv 1 3, truediv 2 3, truediv 3 3], world = 3\<rparr>,
           [(''invoice1.txt'', ''ECRS invoice1.pdf''),
            (''invoice2.txt'', ''ERROR: CorruptDocument''),
            (''invoice3.txt'', ''ECRS invoice3.pdf'')]) \<and>
   length [(''invoice1.pdf'', ''ECRS invoice1.pdf''),
           (''invoice2.pdf'', ''ERROR: CorruptDocument''),
           (''invoice3.pdf'', ''ECRS invoice3.pdf'')] = length three_invoices \<and>
   length [(''invoice1.txt'', ''ECRS invoice1.pdf''),
           (''invoice2.txt'', ''ERROR: CorruptDocument''),
           (''invoice3.txt'', ''ECRS invoice3.pdf'')] = length three_invoices"
proof -
  have h: "convert_invoices scenario_converter ''STORE001'' ''Supplier A'' three_invoices 0 =
     Some (\<lparr>results = [(''invoice1.pdf'', ''ECRS invoice1.pdf''),
                        (''invoice2.pdf'', ''ERROR: CorruptDocument''),
                        (''invoice3.pdf'', ''ECRS invoice3.pdf'')],
             progress_bar = [0, truediv 1 3, truediv 2 3, truediv 3 3], world = 3\<rparr>,
           [(''invoice1.txt'', ''ECRS invoice1.pdf''),
            (''invoice2.txt'', ''ERROR: CorruptDocument''),
            (''invoice3.txt'', ''ECRS invoice3.pdf'')])"
    by code_simp
  show ?thesis
    using h one_entry_per_document [OF h] by simp
qed

text \<open>
  Claim C8. During a batch run over \<open>N\<close> documents the progress bar, created at 0, is set
  after document \<open>k\<close> (counted from 1) to the float \<^verbatim>\<open>k / N\<close>. The values never decrease
  from one document to the next and the last one is 1.0, the count having reached the
  total; for up to \<open>2 ^ 52\<close> documents they are strictly increasing.
\<close>

theorem progress_increasing:
  assumes "convert_invoices conv s p files w = Some (st, zf)"
  shows "progress_bar st =
           0 # map (\<lambda>i. truediv (i + 1) (length files)) [0..<length files] \<and>
         sorted_wrt (\<le>) (progress_bar st) \<and>
         last (progress_bar st) = 1 \<and>
         (length files \<le> 2 ^ 52 \<longrightarrow> sorted_wrt (<) (progress_bar st))"
proof -
  note cs = convert_invoices_Some [OF assms]
  have pos: "0 < length files"
    using cs(1) by simp
  have eq: "progress_bar st =
           0 # map (\<lambda>k. truediv (Suc k) (length files)) [0..<length files]"
    using cs(2) by (simp add: batch_loop_progress)
  have mono: "sorted_wrt (\<le>) (progress_bar st)"
    unfolding eq by (rule progress_values_sorted)
  have inc: "sorted_wrt (<) (progress_bar st)" if "length files \<le> 2 ^ 52"
    unfolding eq using that by (rule progress_values_increasing)
  obtain m where m: "length files = Suc m"
    using pos by (cases "length files") simp_all
  have "last (progress_bar st) = truediv (Suc m) (Suc m)"
    unfolding eq m by simp
  also have "\<dots> = 1"
    by (rule truediv_self) simp
  finally have fin: "last (progress_bar st) = 1" .
  show ?thesis
    using eq mono fin inc by simp
qed

text \<open>
  Claim C8 at the three invoices: the bar goes through 0, \<^verbatim>\<open>1 / 3\<close>, \<^verbatim>\<open>2 / 3\<close> and
  \<^verbatim>\<open>3 / 3\<close>, strictly increasing.
\<close>

theorem progress_increasing_witness:
  "convert_invoices scenario_converter ''STORE001'' ''Supplier A'' three_invoices 0 =
     Some (\<lparr>results = [(''invoice1.pdf'', ''ECRS invoice1.pdf''),
                        (''invoice2.pdf'', ''ERROR: CorruptDocument''),
                        (''invoice3.pdf'', ''ECRS invoice3.pdf'')],
             progress_bar = [0, truediv 1 3, truediv 2 3, truediv 3 3], world = 3\<rparr>,
           [(''invoice1.txt'', ''ECRS invoice1.pdf''),
            (''invoice2.txt'', ''ERROR: CorruptDocument''),
            (''invoice3.txt'', ''ECRS invoice3.pdf'')]) \<and>
   length three_invoices \<le> 2 ^ 52 \<and>
   sorted_wrt (\<le>) [0, truediv 1 3, truediv 2 3, truediv 3 3] \<and>
   last [0, truediv 1 3, truediv 2 3, truediv 3 3] = 1 \<and>
   sorted_wrt (<) [0, truediv 1 3, truediv 2 3, truediv 3 3]"
proof -
  have h: "convert_invoices scenario_converter ''STORE001'' ''Supplier A'' three_invoices 0 =
     Some (\<lparr>results = [(''invoice1.pdf'', ''ECRS invoice1.pdf''),
                        (''invoice2.pdf'', ''ERROR: CorruptDocument''),
                        (''invoice3.pdf'', ''ECRS invoice3.pdf'')],
             progress_bar = [0, truediv 1 3, truediv 2 3, truediv 3 3], world = 3\<rparr>,
           [(''invoice1.txt'', ''ECRS invoice1.pdf''),
            (''invoice2.txt'', ''ERROR: CorruptDocument''),
            (''invoice3.txt'', ''ECRS invoice3.pdf'')])"
    by code_simp
  have l: "length three_invoices \<le> 2 ^ 52"
    by (simp add: three_invoices_def)
  have "sorted_wrt (\<le>)
          (progress_bar \<lparr>results = [(''invoice1.pdf'', ''ECRS invoice1.pdf''),
                        (''invoice2.pdf'', ''ERROR: CorruptDocument''),
                        (''invoice3.pdf'', ''ECRS invoice3.pdf'')],
             progress_bar = [0, truediv 1 3, truediv 2 3, truediv 3 3], world = 3 :: nat\<rparr>) \<and>
        last (progress_bar \<lparr>results = [(''invoice1.pdf'', ''ECRS invoice1.pdf''),
                        (''invoice2.pdf'', ''ERROR: CorruptDocument''),
                        (''invoice3.pdf'', ''ECRS invoice3.pdf'')],
             progress_bar = [0, truediv 1 3, truediv 2 3, truediv 3 3], world = 3 :: nat\<rparr>) = 1 \<and>
        sorted_wrt (<)
          (progress_bar \<lparr>results = [(''invoice1.pdf'', ''ECRS invoice1.pdf''),
                        (''invoice2.pdf'', ''ERROR: CorruptDocument''),
                        (''invoice3.pdf'', ''ECRS invoice3.pdf'')],
             progress_bar = [0, truediv 1 3, truediv 2 3, truediv 3 3], world = 3 :: nat\<rparr>)"
    using progress_increasing [OF h] l by blast
  then have "sorted_wrt (\<le>) [0, truediv 1 3, truediv 2 3, truediv 3 3] \<and>
      last [0, truediv 1 3, truediv 2 3, truediv 3 3] = 1 \<and>
      sorted_wrt (<) [0, truediv 1 3, truediv 2 3, truediv 3 3]"
    by (simp only: batch_state.select_convs)
  then show ?thesis
    using h l by blast
qed

text \<open>
  Claim C4, as stated, fails on the code: the second of the three invoices fails, and the
  archive still has an entry for it, three entries for two converted documents.
\<close>

theorem archive_counterexample:
  "fst (scenario_converter (three_invoices ! 1) ''STORE001'' ''Supplier A'' 1) =
     Inl ''CorruptDocument'' \<and>
   map_option snd
     (convert_invoices scenario_converter ''STORE001'' ''Supplier A'' three_invoices 0) =
     Some [(''invoice1.txt'', ''ECRS invoice1.pdf''),
           (''invoice2.txt'', ''ERROR: CorruptDocument''),
           (''invoice3.txt'', ''ECRS invoice3.pdf'')]"
  by code_simp

text \<open>
  Claim C4, amended. For every batch run the archive contains exactly one entry per input
  document, in input order, the content of each being the content of that document's
  \<^verbatim>\<open>results\<close> entry (for a failed document its error text); and for a source name of the form
  \<open>base @ ''.pdf''\<close> in which \<^verbatim>\<open>.pdf\<close> does not occur inside \<open>base\<close>, the entry's name is
  \<open>base @ ''.txt''\<close>.
\<close>

theorem archive_entries:
  assumes "convert_invoices conv s p files w = Some (st, zf)"
  shows "length zf = length files \<and>
         map snd zf = map snd (results st) \<and>
         (\<forall>j<length files. \<forall>base.
            name (files ! j) = base @ ''.pdf'' \<and> \<not> sublist ''.pdf'' base \<longrightarrow>
            fst (zf ! j) = base @ ''.txt'')"
proof -
  let ?st0 = "\<lparr>results = [], progress_bar = [0::rat], world = w\<rparr>"
  note cs = convert_invoices_Some [OF assms]
  have len: "length (results st) = length files"
    and names: "map fst (results st) = map name files"
    using batch_results_from_empty [of ?st0 conv s p "length files" 0 files] cs(2) by simp_all
  have zlen: "length zf = length files"
    using cs(3) len by simp
  have zcontent: "map snd zf = map snd (results st)"
    using cs(3) by (simp add: case_prod_unfold)
  have zname: "fst (zf ! j) = base @ ''.txt''"
    if "j < length files" "name (files ! j) = base @ ''.pdf''" "\<not> sublist ''.pdf'' base"
    for j base
  proof -
    have "fst (results st ! j) = name (files ! j)"
      using that(1) len names by (metis nth_map)
    moreover have "fst (zf ! j) = replace_str ''.pdf'' ''.txt'' (fst (results st ! j))"
      using cs(3) that(1) len by (simp add: case_prod_unfold)
    ultimately show ?thesis
      using that(2,3) by (simp add: replace_pdf_suffix)
  qed
  show ?thesis
    using zlen zcontent zname by blast
qed

text \<open>
  The amended claim at the three invoices, for the failed second document.
\<close>

theorem archive_entries_witness:
  "convert_invoices scenario_converter ''STORE001'' ''Supplier A'' three_invoices 0 =
     Some (\<lparr>results = [(''invoice1.pdf'', ''ECRS invoice1.pdf''),
                        (''invoice2.pdf'', ''ERROR: CorruptDocument''),
                        (''invoice3.pdf'', ''ECRS invoice3.pdf'')],
             progress_bar = [0, truediv 1 3, truediv 2 3, truediv 3 3], world = 3\<rparr>,
           [(''invoice1.txt'', ''ECRS invoice1.pdf''),
            (''invoice2.txt'', ''ERROR: CorruptDocument''),
            (''invoice3.txt'', ''ECRS invoice3.pdf'')]) \<and>
   (1::nat) < length three_invoices \<and>
   name (three_invoices ! 1) = ''invoice2'' @ ''.pdf'' \<and>
   \<not> sublist ''.pdf'' ''invoice2'' \<and>
   fst ([(''invoice1.txt'', ''ECRS invoice1.pdf''),
         (''invoice2.txt'', ''ERROR: CorruptDocument''),
         (''invoice3.txt'', ''ECRS invoice3.pdf'')] ! 1) = ''invoice2'' @ ''.txt''"
proof -
  have h: "convert_invoices scenario_converter ''STORE001'' ''Supplier A'' three_invoices 0 =
     Some (\<lparr>results = [(''invoice1.pdf'', ''ECRS invoice1.pdf''),
                        (''invoice2.pdf'', ''ERROR: CorruptDocument''),
                        (''invoice3.pdf'', ''ECRS invoice3.pdf'')],
             progress_bar = [0, truediv 1 3, truediv 2 3, truediv 3 3], world = 3\<rparr>,
           [(''invoice1.txt'', ''ECRS invoice1.pdf''),
            (''invoice2.txt'', ''ERROR: CorruptDocument''),
            (''invoice3.txt'', ''ECRS invoice3.pdf'')])"
    by code_simp
  have l: "(1::nat) < length three_invoices"
    by (simp add: three_invoices_def)
  have n: "name (three_invoices ! 1) = ''invoice2'' @ ''.pdf''"
    by (simp add: three_invoices_def)
  have ns: "\<not> sublist ''.pdf'' ''invoice2''"
    by code_simp
  have "fst ([(''invoice1.txt'', ''ECRS invoice1.pdf''),
         (''invoice2.txt'', ''ERROR: CorruptDocument''),
         (''invoice3.txt'', ''ECRS invoice3.pdf'')] ! 1) = ''invoice2'' @ ''.txt''"
    using archive_entries [OF h] l n ns by blast
  then show ?thesis
    using h l n ns by blast
qed

end
